theory Spec2Isabelle
  imports Complex_Main "HOL-Library.Log_Nat"
begin

section \<open>Python string primitives used by the index parser\<close>

text \<open>
  The input of \<^verbatim>\<open>generate_pdf\<close> is a Python \<^verbatim>\<open>str\<close>. It is modelled as a
  \<^typ>\<open>string\<close> whose characters are read as the code points U+0000 to U+00FF. On that
  range the character classes of CPython are finite tables:
  \<^item> \<^verbatim>\<open>str.isspace\<close> (the characters removed by \<^verbatim>\<open>str.strip()\<close>) holds for
    9 to 13, 28 to 32, 133 and 160;
  \<^item> \<^verbatim>\<open>str.isdigit\<close> holds for \<^verbatim>\<open>0\<close> to \<^verbatim>\<open>9\<close> (48 to 57) and for the
    superscript digits two, three and one (178, 179, 185);
  \<^item> \<^verbatim>\<open>int\<close> accepts, among these, only \<^verbatim>\<open>0\<close> to \<^verbatim>\<open>9\<close> and raises
    \<^verbatim>\<open>ValueError\<close> on a superscript digit.
\<close>

definition isspace_char :: "char \<Rightarrow> bool" where
  "isspace_char c =
     (let n = (of_char c :: nat)
      in (9 \<le> n \<and> n \<le> 13) \<or> (28 \<le> n \<and> n \<le> 32) \<or> n = 133 \<or> n = 160)"

definition isdigit_char :: "char \<Rightarrow> bool" where
  "isdigit_char c =
     (let n = (of_char c :: nat)
      in (48 \<le> n \<and> n \<le> 57) \<or> n = 178 \<or> n = 179 \<or> n = 185)"

definition isdecimal_char :: "char \<Rightarrow> bool" where
  "isdecimal_char c = (let n = (of_char c :: nat) in 48 \<le> n \<and> n \<le> 57)"

text \<open>\<^verbatim>\<open>s.strip()\<close>: leading and trailing whitespace removed.\<close>

definition strip :: "string \<Rightarrow> string" where
  "strip s = rev (dropWhile isspace_char (rev (dropWhile isspace_char s)))"

text \<open>
  \<^verbatim>\<open>s.split(sep)\<close> for a one-character separator: the empty string gives one empty
  token, and every separator starts a new token.
\<close>

fun split_on :: "char \<Rightarrow> string \<Rightarrow> string list" where
  "split_on sep [] = [[]]"
| "split_on sep (c # cs) =
     (if c = sep then [] # split_on sep cs
      else (case split_on sep cs of
              [] \<Rightarrow> [[c]]
            | t # ts \<Rightarrow> (c # t) # ts))"

text \<open>\<^verbatim>\<open>s.isdigit()\<close>: at least one character, and every character a digit.\<close>

definition str_isdigit :: "string \<Rightarrow> bool" where
  "str_isdigit s = (s \<noteq> [] \<and> list_all isdigit_char s)"

text \<open>
  The default of \<^verbatim>\<open>sys.int_info.default_max_str_digits\<close>: \<^verbatim>\<open>int\<close> raises
  \<^verbatim>\<open>ValueError\<close> on a string with more digit characters, leading zeros counted.
\<close>

definition int_max_str_digits :: nat where
  "int_max_str_digits = 4300"

text \<open>
  \<^verbatim>\<open>int(s)\<close> on the tokens that reach it, which all satisfy \<^verbatim>\<open>isdigit\<close>: the decimal
  value when every character is one of \<^verbatim>\<open>0\<close> to \<^verbatim>\<open>9\<close> (leading zeros allowed) and
  there are at most 4300 of them, and \<open>None\<close> for the \<^verbatim>\<open>ValueError\<close> otherwise.
\<close>

definition py_int :: "string \<Rightarrow> int option" where
  "py_int s =
     (if s \<noteq> [] \<and> list_all isdecimal_char s \<and> length s \<le> int_max_str_digits
      then Some (foldl (\<lambda>a c. 10 * a + int (of_char c - 48)) 0 s)
      else None)"

section \<open>The index parser (lines 27 to 34)\<close>

text \<open>
  How a call ends without a document: the two \<^verbatim>\<open>return None\<close> of the parser (the
  warning for an empty list of indices, the error message of the \<^verbatim>\<open>except\<close> clause),
  and an exception that \<^verbatim>\<open>pdf.image\<close> raises for the file of an index, which no
  \<^verbatim>\<open>try\<close> encloses.
\<close>

datatype failure = EmptyInput | InvalidFormat | ImageError int

text \<open>
  The comprehension \<^verbatim>\<open>[int(s) for s in tokens if s.isdigit()]\<close>, evaluated from left
  to right; \<open>None\<close> when a call of \<^verbatim>\<open>int\<close> raises.
\<close>

fun collect_indices :: "string list \<Rightarrow> int list option" where
  "collect_indices [] = Some []"
| "collect_indices (s # ss) =
     (if str_isdigit s
      then (case py_int s of
              None \<Rightarrow> None
            | Some n \<Rightarrow> (case collect_indices ss of
                          None \<Rightarrow> None
                        | Some ns \<Rightarrow> Some (n # ns)))
      else collect_indices ss)"

definition parse_indices :: "string \<Rightarrow> failure + int list" where
  "parse_indices input_string =
     (case collect_indices (split_on CHR ''_'' (strip input_string)) of
        None \<Rightarrow> Inl InvalidFormat
      | Some indices \<Rightarrow> if indices = [] then Inl EmptyInput else Inr indices)"

section \<open>Python numbers\<close>

text \<open>
  A Python \<^verbatim>\<open>float\<close> is an IEEE 754 double. A finite double is a rational number, and
  every operation returns the double nearest to the exact result, ties going to the even
  significand. \<open>fl\<close> is that rounding, to 53 significant bits. The exponent is not
  bounded: overflow and underflow, which need magnitudes beyond \<open>10^308\<close> or below
  \<open>10^-308\<close>, are outside the model.
\<close>

definition round_half_even :: "rat \<Rightarrow> int" where
  "round_half_even t =
     (let f = \<lfloor>t\<rfloor>; d = t - of_int f
      in if d < 1 / 2 then f else if 1 / 2 < d then f + 1 else if even f then f else f + 1)"

text \<open>The binary exponent \<open>e\<close> of a number other than zero: \<open>2^e \<le> |x| < 2^(e+1)\<close>.\<close>

definition exponent :: "rat \<Rightarrow> int" where
  "exponent x =
     (let a = \<bar>x\<bar>
      in if 1 \<le> a then bitlen \<lfloor>a\<rfloor> - 1 else - bitlen (\<lceil>1 / a\<rceil> - 1))"

definition fl :: "rat \<Rightarrow> rat" where
  "fl x =
     (if x = 0 then 0
      else (let ulp = 2 powi (exponent x - 52)
            in of_int (round_half_even (x / ulp)) * ulp))"

text \<open>
  The layout mixes \<^verbatim>\<open>int\<close> and \<^verbatim>\<open>float\<close> values in \<^verbatim>\<open>y\<close> and
  \<^verbatim>\<open>line_height\<close>. Two ints add exactly; otherwise an int operand is converted to
  the nearest double and the sum is rounded. A comparison of an int with a float is exact.
  \<^verbatim>\<open>max(a, b)\<close> returns \<open>b\<close> only when \<open>b > a\<close>.
\<close>

datatype pynum = PyInt int | PyFloat rat

fun num_value :: "pynum \<Rightarrow> rat" where
  "num_value (PyInt n) = of_int n"
| "num_value (PyFloat r) = r"

fun to_float :: "pynum \<Rightarrow> rat" where
  "to_float (PyInt n) = fl (of_int n)"
| "to_float (PyFloat r) = r"

fun py_add :: "pynum \<Rightarrow> pynum \<Rightarrow> pynum" where
  "py_add (PyInt m) (PyInt n) = PyInt (m + n)"
| "py_add a b = PyFloat (fl (to_float a + to_float b))"

definition py_gt :: "pynum \<Rightarrow> pynum \<Rightarrow> bool" where
  "py_gt a b = (num_value b < num_value a)"

definition py_max :: "pynum \<Rightarrow> pynum \<Rightarrow> pynum" where
  "py_max a b = (if py_gt b a then b else a)"

section \<open>The flow layout (lines 36 to 76)\<close>

text \<open>The parameters of the call; the caller passes the ints of its sliders.\<close>

record params =
  x_start :: int
  y_start :: int
  max_width :: int
  max_height :: int
  image_width :: int
  h_gap :: int
  v_gap :: int

text \<open>
  What the image folder holds for one index: no file \<^verbatim>\<open>{index}.png\<close>, a path that
  exists but that \<^verbatim>\<open>cv2.imread\<close> cannot decode, or a file that \<^verbatim>\<open>cv2.imread\<close>
  decodes to an array of shape \<open>(h, w, _)\<close>. For a decoded file the third component says
  whether \<^verbatim>\<open>pdf.image\<close> accepts it; FPDF parses the file itself and raises on a file
  it does not support.
\<close>

datatype asset = Missing | Unreadable | Image nat nat bool

text \<open>
  The calls made on the \<^verbatim>\<open>FPDF\<close> object, in order: \<^verbatim>\<open>add_page()\<close> and
  \<^verbatim>\<open>image(path, x, y, w, h)\<close>, the path given by its index. \<^verbatim>\<open>image\<close> reads
  and parses the file when it is called; serialising the document at the end reads no
  file and is taken to succeed.
\<close>

datatype command = AddPage | PlaceImage int int pynum int rat

datatype diagnostic = NotFound int | CouldNotRead int

text \<open>
  The variables of the loop: the cursor \<^verbatim>\<open>x\<close>, \<^verbatim>\<open>y\<close>, \<^verbatim>\<open>line_height\<close>, the
  document and the warnings shown so far.
\<close>

record state =
  cur_x :: int
  cur_y :: pynum
  line_height :: pynum
  pdf :: "command list"
  warnings :: "diagnostic list"

text \<open>
  Lines 47 to 55, the inner \<^verbatim>\<open>try\<close>: \<open>None\<close> when an exception is caught (no array,
  \<^verbatim>\<open>w / h\<close> with \<open>h = 0\<close>, or \<^verbatim>\<open>new_width / aspect_ratio\<close> with a ratio of zero),
  else \<open>(new_width, new_height)\<close>. The true division of two ints is rounded once; the
  int \<^verbatim>\<open>new_width\<close> is converted before it is divided by the float.
\<close>

fun image_size :: "int \<Rightarrow> asset \<Rightarrow> (int \<times> rat) option" where
  "image_size iw Missing = None"
| "image_size iw Unreadable = None"
| "image_size iw (Image h w ok) =
     (if h = 0 then None
      else (let aspect_ratio = fl (of_nat w / of_nat h);
                new_width = iw
            in if aspect_ratio = 0 then None
               else Some (new_width, fl (fl (of_int new_width) / aspect_ratio))))"

text \<open>Lines 58 to 61: move to the next line.\<close>

definition wrap_line :: "params \<Rightarrow> int \<Rightarrow> state \<Rightarrow> state" where
  "wrap_line p new_width st =
     (if cur_x st + new_width > x_start p + max_width p
      then st\<lparr>cur_x := x_start p,
              cur_y := py_add (cur_y st) (py_add (line_height st) (PyInt (v_gap p))),
              line_height := PyInt 0\<rparr>
      else st)"

text \<open>Lines 64 to 67: create a new page.\<close>

definition break_page :: "params \<Rightarrow> rat \<Rightarrow> state \<Rightarrow> state" where
  "break_page p new_height st =
     (if py_gt (py_add (cur_y st) (PyFloat new_height)) (PyInt (y_start p + max_height p))
      then st\<lparr>pdf := pdf st @ [AddPage],
              cur_x := x_start p,
              cur_y := PyInt (y_start p),
              line_height := PyInt 0\<rparr>
      else st)"

text \<open>Lines 69 to 71: draw the image and advance the cursor.\<close>

definition put_image :: "params \<Rightarrow> int \<Rightarrow> int \<Rightarrow> rat \<Rightarrow> state \<Rightarrow> state" where
  "put_image p index new_width new_height st =
     st\<lparr>pdf := pdf st @ [PlaceImage index (cur_x st) (cur_y st) new_width new_height],
        cur_x := cur_x st + (new_width + h_gap p),
        line_height := py_max (line_height st) (PyFloat new_height)\<rparr>"

text \<open>
  One iteration of the loop over the indices (lines 43 to 73). \<open>Inl\<close> is the exception
  of \<^verbatim>\<open>pdf.image\<close>, which leaves the loop and the call.
\<close>

definition process_index ::
  "params \<Rightarrow> (int \<Rightarrow> asset) \<Rightarrow> state \<Rightarrow> int \<Rightarrow> failure + state" where
  "process_index p folder st index =
     (case folder index of
        Missing \<Rightarrow> Inr (st\<lparr>warnings := warnings st @ [NotFound index]\<rparr>)
      | Unreadable \<Rightarrow> Inr (st\<lparr>warnings := warnings st @ [CouldNotRead index]\<rparr>)
      | Image h w ok \<Rightarrow>
          (case image_size (image_width p) (Image h w ok) of
             None \<Rightarrow> Inr (st\<lparr>warnings := warnings st @ [CouldNotRead index]\<rparr>)
           | Some (new_width, new_height) \<Rightarrow>
               (let st' = break_page p new_height (wrap_line p new_width st)
                in if ok then Inr (put_image p index new_width new_height st')
                   else Inl (ImageError index))))"

text \<open>Lines 36 to 40: a document with one page, the cursor at the start position.\<close>

definition initial_state :: "params \<Rightarrow> state" where
  "initial_state p =
     \<lparr>cur_x = x_start p, cur_y = PyInt (y_start p), line_height = PyInt 0,
      pdf = [AddPage], warnings = []\<rparr>"

text \<open>The \<^verbatim>\<open>for\<close> loop, from a state.\<close>

fun run_loop :: "params \<Rightarrow> (int \<Rightarrow> asset) \<Rightarrow> state \<Rightarrow> int list \<Rightarrow> failure + state" where
  "run_loop p folder st [] = Inr st"
| "run_loop p folder st (index # rest) =
     (case process_index p folder st index of
        Inl e \<Rightarrow> Inl e
      | Inr st' \<Rightarrow> run_loop p folder st' rest)"

definition layout :: "params \<Rightarrow> (int \<Rightarrow> asset) \<Rightarrow> int list \<Rightarrow> failure + state" where
  "layout p folder indices = run_loop p folder (initial_state p) indices"

text \<open>
  The whole call. On success the serialised document is returned; it is represented by
  the calls that built it, together with the warnings shown on the way.
\<close>

definition generate_pdf ::
  "string \<Rightarrow> (int \<Rightarrow> asset) \<Rightarrow> params \<Rightarrow> failure + (command list \<times> diagnostic list)" where
  "generate_pdf input_string folder p =
     (case parse_indices input_string of
        Inl e \<Rightarrow> Inl e
      | Inr indices \<Rightarrow>
          (case layout p folder indices of
             Inl e \<Rightarrow> Inl e
           | Inr st \<Rightarrow> Inr (pdf st, warnings st)))"

section \<open>Observations on a document\<close>

text \<open>The images drawn by a sequence of calls, in order, and the number of pages.\<close>

type_synonym placement = "int \<times> int \<times> pynum \<times> int \<times> rat"

fun placements :: "command list \<Rightarrow> placement list" where
  "placements [] = []"
| "placements (AddPage # cs) = placements cs"
| "placements (PlaceImage i px py w h # cs) = (i, px, py, w, h) # placements cs"

fun page_count :: "command list \<Rightarrow> nat" where
  "page_count [] = 0"
| "page_count (AddPage # cs) = Suc (page_count cs)"
| "page_count (PlaceImage i px py w h # cs) = page_count cs"

text \<open>The first image drawn on each page that has one.\<close>

fun page_firsts :: "command list \<Rightarrow> placement list" where
  "page_firsts [] = []"
| "page_firsts (PlaceImage i px py w h # cs) = page_firsts cs"
| "page_firsts [AddPage] = []"
| "page_firsts (AddPage # AddPage # cs) = page_firsts (AddPage # cs)"
| "page_firsts (AddPage # PlaceImage i px py w h # cs) = (i, px, py, w, h) # page_firsts cs"




text \<open>
  An index whose image reaches the layout: the file exists and lines 47 to 52 raise
  nothing. An asset that \<^verbatim>\<open>pdf.image\<close> does not reject.
\<close>

definition readable :: "params \<Rightarrow> (int \<Rightarrow> asset) \<Rightarrow> int \<Rightarrow> bool" where
  "readable p folder index = (image_size (image_width p) (folder index) \<noteq> None)"

fun accepted :: "asset \<Rightarrow> bool" where
  "accepted (Image h w ok) = ok"
| "accepted Missing = True"
| "accepted Unreadable = True"

text \<open>The warning shown for an index that is skipped.\<close>

definition skip_warning :: "(int \<Rightarrow> asset) \<Rightarrow> int \<Rightarrow> diagnostic" where
  "skip_warning folder index =
     (if folder index = Missing then NotFound index else CouldNotRead index)"

text \<open>The outcome of a run without its warnings.\<close>

definition without_warnings :: "failure + state \<Rightarrow> failure + state" where
  "without_warnings r = map_sum id (\<lambda>st. st\<lparr>warnings := []\<rparr>) r"


text \<open>
  The state right after a page was added: the cursor is at the start position, and the
  first image of every page so far was drawn there.
\<close>

definition fresh_page_inv :: "params \<Rightarrow> state \<Rightarrow> bool" where
  "fresh_page_inv p st =
     ((pdf st \<noteq> [] \<and> last (pdf st) = AddPage \<longrightarrow>
         cur_x st = x_start p \<and> cur_y st = PyInt (y_start p)) \<and>
      list_all (\<lambda>(i, px, py, w, h). px = x_start p \<and> py = PyInt (y_start p))
        (page_firsts (pdf st)))"

section \<open>The parser as the specification words it\<close>

text \<open>
  A token of decimal digits is a non-empty sequence of the characters \<^verbatim>\<open>0\<close> to
  \<^verbatim>\<open>9\<close>; its value is read in base ten.
\<close>

definition is_decimal_token :: "string \<Rightarrow> bool" where
  "is_decimal_token t = (t \<noteq> [] \<and> list_all isdecimal_char t)"

definition decimal_value :: "string \<Rightarrow> int" where
  "decimal_value t = foldl (\<lambda>a c. 10 * a + int (of_char c - 48)) 0 t"

text \<open>
  The specification's parser: split on the delimiter, keep the tokens of decimal digits
  in order, drop every other token, and fail with \<open>EmptyInput\<close> when nothing is kept.
\<close>

definition spec_parse :: "string \<Rightarrow> failure + int list" where
  "spec_parse raw =
     (let indices = map decimal_value (filter is_decimal_token (split_on CHR ''_'' raw))
      in if indices = [] then Inl EmptyInput else Inr indices)"

text \<open>A token that passes \<^verbatim>\<open>isdigit\<close> and that \<^verbatim>\<open>int\<close> rejects.\<close>

definition rejected_token :: "string \<Rightarrow> bool" where
  "rejected_token t = (str_isdigit t \<and> py_int t = None)"

section \<open>The error of one rounding\<close>

lemma round_half_even_error: "\<bar>of_int (round_half_even t) - t\<bar> \<le> 1 / 2"
proof -
  have "of_int \<lfloor>t\<rfloor> \<le> t" and "t < of_int \<lfloor>t\<rfloor> + 1"
    by linarith+
  then show ?thesis
    by (auto simp: round_half_even_def Let_def)
qed

lemma exponent_lower:
  assumes "x \<noteq> 0"
  shows "2 powi (exponent x) \<le> \<bar>x\<bar>"
proof (cases "1 \<le> \<bar>x\<bar>")
  case True
  then have pos: "0 < \<lfloor>\<bar>x\<bar>\<rfloor>" by linarith
  from bitlen_bounds [OF pos] have "2 ^ nat (bitlen \<lfloor>\<bar>x\<bar>\<rfloor> - 1) \<le> \<lfloor>\<bar>x\<bar>\<rfloor>" by simp
  then have "(of_int (2 ^ nat (bitlen \<lfloor>\<bar>x\<bar>\<rfloor> - 1)) :: rat) \<le> of_int \<lfloor>\<bar>x\<bar>\<rfloor>"
    by (simp only: of_int_le_iff)
  also have "\<dots> \<le> \<bar>x\<bar>" by linarith
  finally have "(2::rat) ^ nat (bitlen \<lfloor>\<bar>x\<bar>\<rfloor> - 1) \<le> \<bar>x\<bar>" by simp
  moreover have "0 \<le> bitlen \<lfloor>\<bar>x\<bar>\<rfloor> - 1"
    using pos by (simp add: bitlen_alt_def)
  ultimately show ?thesis
    using True by (simp add: exponent_def Let_def power_int_def)
next
  case False
  define a where "a = \<bar>x\<bar>"
  from assms False have a: "0 < a" "a < 1" by (simp_all add: a_def)
  define n where "n = \<lceil>1 / a\<rceil>"
  from a have "1 < 1 / a" by simp
  then have n2: "2 \<le> n" unfolding n_def by linarith
  then have pos: "0 < n - 1" by simp
  define k where "k = nat (bitlen (n - 1))"
  from bitlen_bounds [OF pos] have "n - 1 < 2 ^ k" by (simp add: k_def)
  then have "n \<le> 2 ^ k" by simp
  then have "(of_int n :: rat) \<le> of_int (2 ^ k)" by (simp only: of_int_le_iff)
  then have nk: "(of_int n :: rat) \<le> 2 ^ k" by simp
  have "1 / a \<le> of_int n" unfolding n_def by linarith
  with nk have "1 / a \<le> 2 ^ k" by linarith
  with a have "1 \<le> 2 ^ k * a" by (simp add: field_simps)
  then have "1 / 2 ^ k \<le> a" by (simp add: field_simps)
  moreover have "exponent x = - int k"
    using False by (simp add: exponent_def Let_def a_def n_def k_def bitlen_nonneg)
  moreover have "(2::rat) powi (- int k) = 1 / 2 ^ k"
    by (simp add: power_int_minus field_simps)
  ultimately show ?thesis
    by (simp only: a_def)
qed

lemma fl_error:
  assumes "x \<noteq> 0"
  shows "\<bar>fl x - x\<bar> \<le> \<bar>x\<bar> / 2 ^ 53"
proof -
  define ulp :: rat where "ulp = 2 powi (exponent x - 52)"
  have ulp_pos: "0 < ulp" by (simp add: ulp_def)
  have "fl x - x = ulp * (of_int (round_half_even (x / ulp)) - x / ulp)"
    using assms ulp_pos by (simp add: fl_def ulp_def [symmetric] Let_def field_simps)
  then have "\<bar>fl x - x\<bar> = ulp * \<bar>of_int (round_half_even (x / ulp)) - x / ulp\<bar>"
    using ulp_pos by (simp add: abs_mult)
  also have "\<dots> \<le> ulp * (1 / 2)"
    using ulp_pos round_half_even_error [of "x / ulp"] by (intro mult_left_mono) simp_all
  also have "ulp * (1 / 2) = 2 powi (exponent x) / 2 ^ 53"
    by (simp add: ulp_def power_int_diff)
  also have "\<dots> \<le> \<bar>x\<bar> / 2 ^ 53"
    using exponent_lower [OF assms] by (simp add: divide_right_mono)
  finally show ?thesis .
qed

lemma fl_relative:
  obtains d where "fl x = x * (1 + d)" and "\<bar>d\<bar> \<le> 1 / 2 ^ 53"
proof (cases "x = 0")
  case True
  then have "fl x = x * (1 + 0)" by (simp add: fl_def)
  then show ?thesis using that [of 0] by simp
next
  case False
  define d where "d = (fl x - x) / x"
  from False have eq: "fl x = x * (1 + d)" by (simp add: d_def field_simps)
  have "\<bar>d\<bar> = \<bar>fl x - x\<bar> / \<bar>x\<bar>" by (simp add: d_def)
  also have "\<dots> \<le> (\<bar>x\<bar> / 2 ^ 53) / \<bar>x\<bar>"
    using fl_error [OF False] by (intro divide_right_mono) simp_all
  also have "\<dots> = 1 / 2 ^ 53" using False by simp
  finally show ?thesis using that [OF eq] by simp
qed

lemma three_roundings:
  fixes d1 d2 d3 :: rat
  assumes "\<bar>d1\<bar> \<le> 1 / 2 ^ 53" "\<bar>d2\<bar> \<le> 1 / 2 ^ 53" "\<bar>d3\<bar> \<le> 1 / 2 ^ 53"
  shows "\<bar>(1 + d1) * (1 + d3) / (1 + d2) - 1\<bar> \<le> 1 / 2 ^ 51"
proof -
  define u :: rat where "u = 1 / 2 ^ 53"
  have u: "0 < u" "u * u \<le> u / 5" "4 * u = 1 / 2 ^ 51" by (simp_all add: u_def)
  from assms have b: "\<bar>d1\<bar> \<le> u" "\<bar>d2\<bar> \<le> u" "\<bar>d3\<bar> \<le> u" by (simp_all add: u_def)
  have "\<bar>d1 * d3\<bar> \<le> u * u"
    unfolding abs_mult using b by (intro mult_mono) simp_all
  with u have prod: "\<bar>d1 * d3\<bar> \<le> u / 5" by linarith
  have den: "0 < 1 + d2" using b u by (simp add: u_def abs_le_iff) 
  have "(1 + d1) * (1 + d3) / (1 + d2) - 1 = (d1 + d3 + d1 * d3 - d2) / (1 + d2)"
    using den by (simp add: field_simps)
  moreover have "\<bar>d1 + d3 + d1 * d3 - d2\<bar> \<le> 4 * u * (1 + d2)"
  proof -
    have top: "\<bar>d1 + d3 + d1 * d3 - d2\<bar> \<le> 3 * u + u / 5" using b prod by linarith
    have "u * (- u) \<le> u * d2"
      using b u by (intro mult_left_mono) (simp_all add: abs_le_iff)
    then have low: "- (u * u) \<le> u * d2" by simp
    have split: "4 * u * (1 + d2) = 4 * u + 4 * (u * d2)" by (simp add: algebra_simps)
    show ?thesis unfolding split using top low u(2) by linarith
  qed
  ultimately have "\<bar>(1 + d1) * (1 + d3) / (1 + d2) - 1\<bar> \<le> 4 * u"
    using den by (simp add: abs_divide pos_divide_le_eq abs_of_pos)
  with u show ?thesis by simp
qed

section \<open>Line wrap and page break\<close>

lemma placements_append: "placements (cs @ ds) = placements cs @ placements ds"
  by (induction cs rule: placements.induct) simp_all

lemma page_count_append: "page_count (cs @ ds) = page_count cs + page_count ds"
  by (induction cs rule: page_count.induct) simp_all

lemma image_size_width:
  "image_size iw a = Some (nw, nh) \<Longrightarrow> nw = iw"
  by (cases a) (auto simp: Let_def split: if_splits)

lemma process_index_None:
  "image_size (image_width p) (folder i) = None \<Longrightarrow>
     process_index p folder st i =
       Inr (st\<lparr>warnings := warnings st @ [skip_warning folder i]\<rparr>)"
  by (cases "folder i") (simp_all add: process_index_def skip_warning_def del: image_size.simps(3))

lemma process_index_draw:
  "image_size (image_width p) (folder i) = Some (nw, nh) \<Longrightarrow> accepted (folder i) \<Longrightarrow>
     process_index p folder st i =
       Inr (put_image p i nw nh (break_page p nh (wrap_line p nw st)))"
  by (cases "folder i") (simp_all add: process_index_def del: image_size.simps(3))

lemma process_index_raise:
  "image_size (image_width p) (folder i) = Some (nw, nh) \<Longrightarrow> \<not> accepted (folder i) \<Longrightarrow>
     process_index p folder st i = Inl (ImageError i)"
  by (cases "folder i") (simp_all add: process_index_def del: image_size.simps(3))

lemma placements_draw:
  "placements (pdf (put_image p i nw nh (break_page p nh (wrap_line p nw st)))) =
     placements (pdf st) @
       [(i, cur_x (break_page p nh (wrap_line p nw st)),
            cur_y (break_page p nh (wrap_line p nw st)), nw, nh)]"
  by (simp add: put_image_def break_page_def wrap_line_def placements_append)

lemma warnings_draw:
  "warnings (put_image p i nw nh (break_page p nh (wrap_line p nw st))) = warnings st"
  by (simp add: put_image_def break_page_def wrap_line_def)

text \<open>
  Claim C1. The line wrap test is strict. When \<open>x + new_width\<close> is greater than
  \<open>x_start + max_width\<close>, the cursor becomes \<open>x = x_start\<close>,
  \<open>y = y + (line_height + v_gap)\<close>, \<open>line_height = 0\<close>; when \<open>x + new_width\<close> is at most
  \<open>x_start + max_width\<close>, and in particular when the two are equal, the cursor is
  unchanged. For an image that is drawn, the rest of the iteration runs from that cursor.
  The test is on ints, so it is exact.
\<close>

theorem line_wrap_strict:
  "(x_start p + max_width p < cur_x st + nw \<longrightarrow>
      wrap_line p nw st =
        st\<lparr>cur_x := x_start p,
           cur_y := py_add (cur_y st) (py_add (line_height st) (PyInt (v_gap p))),
           line_height := PyInt 0\<rparr>) \<and>
   (cur_x st + nw \<le> x_start p + max_width p \<longrightarrow> wrap_line p nw st = st) \<and>
   (cur_x st + nw = x_start p + max_width p \<longrightarrow> wrap_line p nw st = st) \<and>
   (image_size (image_width p) (folder i) = Some (nw, nh) \<and> accepted (folder i) \<longrightarrow>
      (x_start p + max_width p < cur_x st + nw \<longrightarrow>
         process_index p folder st i =
           Inr (put_image p i nw nh
             (break_page p nh
                (st\<lparr>cur_x := x_start p,
                    cur_y := py_add (cur_y st) (py_add (line_height st) (PyInt (v_gap p))),
                    line_height := PyInt 0\<rparr>)))) \<and>
      (cur_x st + nw \<le> x_start p + max_width p \<longrightarrow>
         process_index p folder st i = Inr (put_image p i nw nh (break_page p nh st))))"
  by (auto simp: process_index_draw wrap_line_def)

text \<open>
  Claim C2. The page break test is strict and reads the \<open>y\<close> left by the line wrap of
  the same iteration. The sum \<open>y + new_height\<close> is the double that the code computes.
  When it is greater than \<open>y_start + max_height\<close>, a page is added and the cursor
  becomes \<open>(x_start, y_start)\<close> with \<open>line_height = 0\<close>; otherwise, and in particular
  when the two are equal, the state is unchanged. For an image that is drawn the test
  runs on the state left by the wrap, and when the line wraps and the advanced \<open>y\<close>
  overflows, the same iteration wraps, adds a page and draws at \<open>(x_start, y_start)\<close>.
\<close>

theorem page_break_strict:
  "(py_gt (py_add (cur_y st) (PyFloat nh)) (PyInt (y_start p + max_height p)) \<longrightarrow>
      break_page p nh st =
        st\<lparr>pdf := pdf st @ [AddPage], cur_x := x_start p,
           cur_y := PyInt (y_start p), line_height := PyInt 0\<rparr>) \<and>
   (\<not> py_gt (py_add (cur_y st) (PyFloat nh)) (PyInt (y_start p + max_height p)) \<longrightarrow>
      break_page p nh st = st) \<and>
   (num_value (py_add (cur_y st) (PyFloat nh)) = of_int (y_start p + max_height p) \<longrightarrow>
      break_page p nh st = st) \<and>
   (image_size (image_width p) (folder i) = Some (nw, nh) \<and> accepted (folder i) \<longrightarrow>
      process_index p folder st i =
        Inr (put_image p i nw nh (break_page p nh (wrap_line p nw st))) \<and>
      (x_start p + max_width p < cur_x st + nw \<and>
       py_gt (py_add (py_add (cur_y st) (py_add (line_height st) (PyInt (v_gap p))))
                (PyFloat nh))
             (PyInt (y_start p + max_height p)) \<longrightarrow>
         process_index p folder st i =
           Inr (st\<lparr>pdf := pdf st @ [AddPage, PlaceImage i (x_start p) (PyInt (y_start p)) nw nh],
                  cur_x := x_start p + (nw + h_gap p),
                  cur_y := PyInt (y_start p),
                  line_height := py_max (PyInt 0) (PyFloat nh)\<rparr>)))"
  by (auto simp: process_index_draw wrap_line_def break_page_def put_image_def py_gt_def)


text \<open>
  With \<open>x_start = 0\<close> and \<open>max_width = 100\<close>, an image of width 50 wraps at \<open>x = 60\<close>
  and does not wrap at \<open>x = 50\<close>.
\<close>

theorem line_wrap_strict_witness:
  "process_index
     \<lparr>x_start = 0, y_start = 0, max_width = 100, max_height = 200,
      image_width = 50, h_gap = 5, v_gap = 5\<rparr>
     (\<lambda>i. Image 1 1 True)
     \<lparr>cur_x = 60, cur_y = PyInt 0, line_height = PyFloat 50, pdf = [AddPage], warnings = []\<rparr> 7
   = Inr \<lparr>cur_x = 55, cur_y = PyFloat 55, line_height = PyFloat 50,
          pdf = [AddPage, PlaceImage 7 0 (PyFloat 55) 50 50], warnings = []\<rparr> \<and>
   process_index
     \<lparr>x_start = 0, y_start = 0, max_width = 100, max_height = 200,
      image_width = 50, h_gap = 5, v_gap = 5\<rparr>
     (\<lambda>i. Image 1 1 True)
     \<lparr>cur_x = 50, cur_y = PyInt 0, line_height = PyFloat 50, pdf = [AddPage], warnings = []\<rparr> 7
   = Inr \<lparr>cur_x = 105, cur_y = PyInt 0, line_height = PyFloat 50,
          pdf = [AddPage, PlaceImage 7 50 (PyInt 0) 50 50], warnings = []\<rparr>"
proof -
  let ?p = "\<lparr>x_start = 0, y_start = 0, max_width = 100, max_height = 200,
      image_width = 50, h_gap = 5, v_gap = 5\<rparr>"
  let ?far = "\<lparr>cur_x = 60, cur_y = PyInt 0, line_height = PyFloat 50,
      pdf = [AddPage], warnings = []\<rparr>"
  let ?edge = "\<lparr>cur_x = 50, cur_y = PyInt 0, line_height = PyFloat 50,
      pdf = [AddPage], warnings = []\<rparr>"
  have drawn: "image_size (image_width ?p) ((\<lambda>i. Image 1 1 True) 7) = Some (50, 50) \<and>
      accepted ((\<lambda>i. Image 1 1 True) 7)"
    by code_simp
  have over: "x_start ?p + max_width ?p < cur_x ?far + 50"
    and fits: "cur_x ?edge + 50 \<le> x_start ?p + max_width ?p"
    by simp_all
  from line_wrap_strict [where p = ?p and folder = "\<lambda>i. Image 1 1 True" and i = 7
      and nw = 50 and nh = 50 and st = ?far] drawn over
  have "process_index ?p (\<lambda>i. Image 1 1 True) ?far 7 =
      Inr (put_image ?p 7 50 50 (break_page ?p 50
        (?far\<lparr>cur_x := x_start ?p,
           cur_y := py_add (cur_y ?far) (py_add (line_height ?far) (PyInt (v_gap ?p))),
           line_height := PyInt 0\<rparr>)))"
    by blast
  also have "put_image ?p 7 50 50 (break_page ?p 50
        (?far\<lparr>cur_x := x_start ?p,
           cur_y := py_add (cur_y ?far) (py_add (line_height ?far) (PyInt (v_gap ?p))),
           line_height := PyInt 0\<rparr>)) =
      \<lparr>cur_x = 55, cur_y = PyFloat 55, line_height = PyFloat 50,
          pdf = [AddPage, PlaceImage 7 0 (PyFloat 55) 50 50], warnings = []\<rparr>"
    by code_simp
  finally have wrapped: "process_index ?p (\<lambda>i. Image 1 1 True) ?far 7 =
      Inr \<lparr>cur_x = 55, cur_y = PyFloat 55, line_height = PyFloat 50,
          pdf = [AddPage, PlaceImage 7 0 (PyFloat 55) 50 50], warnings = []\<rparr>" .
  from line_wrap_strict [where p = ?p and folder = "\<lambda>i. Image 1 1 True" and i = 7
      and nw = 50 and nh = 50 and st = ?edge] drawn fits
  have "process_index ?p (\<lambda>i. Image 1 1 True) ?edge 7 =
      Inr (put_image ?p 7 50 50 (break_page ?p 50 ?edge))"
    by blast
  also have "put_image ?p 7 50 50 (break_page ?p 50 ?edge) =
      \<lparr>cur_x = 105, cur_y = PyInt 0, line_height = PyFloat 50,
          pdf = [AddPage, PlaceImage 7 50 (PyInt 0) 50 50], warnings = []\<rparr>"
    by code_simp
  finally have kept: "process_index ?p (\<lambda>i. Image 1 1 True) ?edge 7 =
      Inr \<lparr>cur_x = 105, cur_y = PyInt 0, line_height = PyFloat 50,
          pdf = [AddPage, PlaceImage 7 50 (PyInt 0) 50 50], warnings = []\<rparr>" .
  from wrapped kept show ?thesis by (rule conjI)
qed


text \<open>
  At \<open>y = 40\<close> an image of height 50 fits below \<open>y_start + max_height = 110\<close>, but the
  line wrap of the same iteration moves \<open>y\<close> to 95, so a page is added. In the second
  state the exact sum of \<open>y\<close> and the height is above 79 and the double sum is 79, equal
  to \<open>y_start + max_height\<close>: no page is added.
\<close>

theorem page_break_strict_witness:
  "process_index
     \<lparr>x_start = 10, y_start = 10, max_width = 100, max_height = 100,
      image_width = 50, h_gap = 5, v_gap = 5\<rparr>
     (\<lambda>i. Image 1 1 True)
     \<lparr>cur_x = 65, cur_y = PyInt 40, line_height = PyFloat 50, pdf = [AddPage], warnings = []\<rparr> 3
   = Inr \<lparr>cur_x = 65, cur_y = PyInt 10, line_height = PyFloat 50,
          pdf = [AddPage, AddPage, PlaceImage 3 10 (PyInt 10) 50 50], warnings = []\<rparr> \<and>
   break_page
     \<lparr>x_start = 10, y_start = 10, max_width = 50, max_height = 69,
      image_width = 7, h_gap = 5, v_gap = 6\<rparr>
     (Fract 5254199565265579 2251799813685248)
     \<lparr>cur_x = 22, cur_y = PyFloat (Fract 5394937053620907 70368744177664),
      line_height = PyFloat (Fract 5254199565265579 2251799813685248),
      pdf = [AddPage], warnings = []\<rparr>
   = \<lparr>cur_x = 22, cur_y = PyFloat (Fract 5394937053620907 70368744177664),
      line_height = PyFloat (Fract 5254199565265579 2251799813685248),
      pdf = [AddPage], warnings = []\<rparr>"
proof -
  let ?p = "\<lparr>x_start = 10, y_start = 10, max_width = 100, max_height = 100,
      image_width = 50, h_gap = 5, v_gap = 5\<rparr>"
  let ?st = "\<lparr>cur_x = 65, cur_y = PyInt 40, line_height = PyFloat 50,
      pdf = [AddPage], warnings = []\<rparr>"
  let ?q = "\<lparr>x_start = 10, y_start = 10, max_width = 50, max_height = 69,
      image_width = 7, h_gap = 5, v_gap = 6\<rparr>"
  let ?tie = "\<lparr>cur_x = 22, cur_y = PyFloat (Fract 5394937053620907 70368744177664),
      line_height = PyFloat (Fract 5254199565265579 2251799813685248),
      pdf = [AddPage], warnings = []\<rparr>"
  have drawn: "image_size (image_width ?p) ((\<lambda>i. Image 1 1 True) 3) = Some (50, 50) \<and>
      accepted ((\<lambda>i. Image 1 1 True) 3)"
    by code_simp
  have over: "x_start ?p + max_width ?p < cur_x ?st + 50 \<and>
      py_gt (py_add (py_add (cur_y ?st) (py_add (line_height ?st) (PyInt (v_gap ?p))))
               (PyFloat 50))
            (PyInt (y_start ?p + max_height ?p))"
    by code_simp
  from page_break_strict [where p = ?p and folder = "\<lambda>i. Image 1 1 True" and i = 3
      and nw = 50 and nh = 50 and st = ?st] drawn over
  have "process_index ?p (\<lambda>i. Image 1 1 True) ?st 3 =
      Inr (?st\<lparr>pdf := pdf ?st @ [AddPage, PlaceImage 3 (x_start ?p) (PyInt (y_start ?p)) 50 50],
             cur_x := x_start ?p + (50 + h_gap ?p),
             cur_y := PyInt (y_start ?p),
             line_height := py_max (PyInt 0) (PyFloat 50)\<rparr>)"
    by blast
  also have "?st\<lparr>pdf := pdf ?st @ [AddPage, PlaceImage 3 (x_start ?p) (PyInt (y_start ?p)) 50 50],
             cur_x := x_start ?p + (50 + h_gap ?p),
             cur_y := PyInt (y_start ?p),
             line_height := py_max (PyInt 0) (PyFloat 50)\<rparr> =
      \<lparr>cur_x = 65, cur_y = PyInt 10, line_height = PyFloat 50,
          pdf = [AddPage, AddPage, PlaceImage 3 10 (PyInt 10) 50 50], warnings = []\<rparr>"
    by code_simp
  finally have broken: "process_index ?p (\<lambda>i. Image 1 1 True) ?st 3 =
      Inr \<lparr>cur_x = 65, cur_y = PyInt 10, line_height = PyFloat 50,
          pdf = [AddPage, AddPage, PlaceImage 3 10 (PyInt 10) 50 50], warnings = []\<rparr>" .
  have equal: "num_value (py_add (cur_y ?tie) (PyFloat (Fract 5254199565265579 2251799813685248)))
      = of_int (y_start ?q + max_height ?q)"
    by code_simp
  from page_break_strict [where p = ?q and st = ?tie
      and nh = "Fract 5254199565265579 2251799813685248"] equal
  have kept: "break_page ?q (Fract 5254199565265579 2251799813685248) ?tie = ?tie"
    by blast
  from broken kept show ?thesis by (rule conjI)
qed

text \<open>
  The height is computed with three roundings (the conversion of the width and two
  divisions), so it is within the relative error \<open>2^-51\<close> of \<open>iw * h / w\<close>.
\<close>

lemma image_size_height:
  assumes "0 < h" "0 < w"
  obtains nh where "image_size iw (Image h w ok) = Some (iw, nh)"
    and "\<bar>nh - of_int iw * of_nat h / of_nat w\<bar> \<le> \<bar>of_int iw * of_nat h / of_nat w\<bar> / 2 ^ 51"
proof -
  define r :: rat where "r = of_nat w / of_nat h"
  define t :: rat where "t = of_int iw * of_nat h / of_nat w"
  from assms have r_pos: "0 < r" by (simp add: r_def)
  obtain d1 where d1: "fl (of_int iw) = of_int iw * (1 + d1)" "\<bar>d1\<bar> \<le> 1 / 2 ^ 53"
    by (rule fl_relative)
  obtain d2 where d2: "fl r = r * (1 + d2)" "\<bar>d2\<bar> \<le> 1 / 2 ^ 53"
    by (rule fl_relative)
  obtain d3 where d3: "fl (fl (of_int iw) / fl r) = fl (of_int iw) / fl r * (1 + d3)"
      "\<bar>d3\<bar> \<le> 1 / 2 ^ 53"
    by (rule fl_relative)
  from d2(2) have den: "0 < 1 + d2" by (simp add: abs_le_iff)
  with r_pos d2(1) have flr: "fl r \<noteq> 0" by simp
  define nh where "nh = fl (fl (of_int iw) / fl r)"
  have size: "image_size iw (Image h w ok) = Some (iw, nh)"
    using assms flr by (simp add: Let_def nh_def r_def)
  have iw: "of_int iw = t * r"
    using assms by (simp add: r_def t_def)
  have "nh = fl (of_int iw) / fl r * (1 + d3)"
    unfolding nh_def by (rule d3(1))
  also have "\<dots> = of_int iw * (1 + d1) / (r * (1 + d2)) * (1 + d3)"
    by (simp only: d1(1) d2(1))
  also have "\<dots> = t * r * (1 + d1) / (r * (1 + d2)) * (1 + d3)"
    by (simp only: iw)
  also have "\<dots> = r * (t * (1 + d1)) / (r * (1 + d2)) * (1 + d3)"
    by (simp only: mult_ac)
  also have "\<dots> = t * (1 + d1) / (1 + d2) * (1 + d3)"
    using r_pos by (subst mult_divide_mult_cancel_left) simp_all
  also have "\<dots> = t * ((1 + d1) * (1 + d3) / (1 + d2))"
    by (simp add: mult_ac)
  finally have "nh - t = t * ((1 + d1) * (1 + d3) / (1 + d2) - 1)"
    by (simp add: algebra_simps)
  then have "\<bar>nh - t\<bar> = \<bar>t\<bar> * \<bar>(1 + d1) * (1 + d3) / (1 + d2) - 1\<bar>"
    by (simp add: abs_mult)
  also have "\<dots> \<le> \<bar>t\<bar> * (1 / 2 ^ 51)"
    using three_roundings [OF d1(2) d2(2) d3(2)] by (intro mult_left_mono) simp_all
  finally have "\<bar>nh - t\<bar> \<le> \<bar>t\<bar> / 2 ^ 51" by simp
  with size show ?thesis using that unfolding t_def by blast
qed

section \<open>The size of a drawn image\<close>

lemma process_index_cases:
  obtains
    (skip) "\<not> readable p folder i"
      "process_index p folder st i =
         Inr (st\<lparr>warnings := warnings st @ [skip_warning folder i]\<rparr>)"
  | (draw) nh where "readable p folder i" "accepted (folder i)"
      "image_size (image_width p) (folder i) = Some (image_width p, nh)"
      "process_index p folder st i =
         Inr (put_image p i (image_width p) nh
           (break_page p nh (wrap_line p (image_width p) st)))"
  | (raise) "readable p folder i" "\<not> accepted (folder i)"
      "process_index p folder st i = Inl (ImageError i)"
proof (cases "image_size (image_width p) (folder i)")
  case None
  then show ?thesis using skip by (simp add: readable_def process_index_None)
next
  case (Some d)
  obtain nw nh where d: "d = (nw, nh)" by (cases d)
  with Some have nw: "nw = image_width p" by (simp add: image_size_width)
  show ?thesis
  proof (cases "accepted (folder i)")
    case True
    with Some d nw show ?thesis
      using draw [of nh] by (simp add: readable_def process_index_draw)
  next
    case False
    with Some d nw show ?thesis
      using raise by (simp add: readable_def process_index_raise)
  qed
qed

lemma run_loop_width:
  "run_loop p folder s indices = Inr fin \<Longrightarrow>
   \<forall>(j, px, py, w', h') \<in> set (placements (pdf s)). w' = image_width p \<Longrightarrow>
   \<forall>(j, px, py, w', h') \<in> set (placements (pdf fin)). w' = image_width p"
proof (induction indices arbitrary: s)
  case Nil
  then show ?case by simp
next
  case (Cons i rest)
  show ?case
  proof (cases p folder i s rule: process_index_cases)
    case skip
    with Cons.prems Cons.IH [of "s\<lparr>warnings := warnings s @ [skip_warning folder i]\<rparr>"]
    show ?thesis by simp
  next
    case (draw nh)
    with Cons.prems
      Cons.IH [of "put_image p i (image_width p) nh
        (break_page p nh (wrap_line p (image_width p) s))"]
    show ?thesis by (simp add: placements_draw)
  next
    case raise
    with Cons.prems show ?thesis by simp
  qed
qed

text \<open>
  Claim C4, amended. An image of shape \<open>(h, w)\<close> with \<open>h > 0\<close> and \<open>w > 0\<close> gets the
  width \<open>image_width\<close> and a height, the double \<open>image_width / (w / h)\<close>, that differs
  from \<open>image_width * h / w\<close> by at most \<open>2^-51\<close> of it; when \<^verbatim>\<open>pdf.image\<close> accepts
  the file it is drawn once with that size. An image with \<open>h = 0\<close> is skipped with a
  warning instead of a division error. Every image of a run is drawn with the same width
  \<open>image_width\<close>.
\<close>

theorem aspect_within_rounding:
  "(folder i = Image h w ok \<and> 0 < h \<and> 0 < w \<longrightarrow>
      (\<exists>nh. image_size (image_width p) (folder i) = Some (image_width p, nh) \<and>
         \<bar>nh - of_int (image_width p) * of_nat h / of_nat w\<bar>
           \<le> \<bar>of_int (image_width p) * of_nat h / of_nat w\<bar> / 2 ^ 51 \<and>
         (ok \<longrightarrow>
            (\<exists>st'. process_index p folder st i = Inr st' \<and>
               placements (pdf st') =
                 placements (pdf st) @
                   [(i, cur_x (break_page p nh (wrap_line p (image_width p) st)),
                        cur_y (break_page p nh (wrap_line p (image_width p) st)),
                        image_width p, nh)])))) \<and>
   (folder i = Image 0 w ok \<longrightarrow>
      process_index p folder st i = Inr (st\<lparr>warnings := warnings st @ [CouldNotRead i]\<rparr>)) \<and>
   (layout p folder indices = Inr fin \<longrightarrow>
      (\<forall>(j, px, py, w', h') \<in> set (placements (pdf fin)). w' = image_width p))"
proof (intro conjI impI)
  assume a: "folder i = Image h w ok \<and> 0 < h \<and> 0 < w"
  then obtain nh where size: "image_size (image_width p) (Image h w ok) = Some (image_width p, nh)"
    and close: "\<bar>nh - of_int (image_width p) * of_nat h / of_nat w\<bar>
           \<le> \<bar>of_int (image_width p) * of_nat h / of_nat w\<bar> / 2 ^ 51"
    using image_size_height [of h w "image_width p" ok] by blast
  from a size have size': "image_size (image_width p) (folder i) = Some (image_width p, nh)"
    by simp
  have "ok \<longrightarrow>
      (\<exists>st'. process_index p folder st i = Inr st' \<and>
         placements (pdf st') =
           placements (pdf st) @
             [(i, cur_x (break_page p nh (wrap_line p (image_width p) st)),
                  cur_y (break_page p nh (wrap_line p (image_width p) st)),
                  image_width p, nh)])"
  proof
    assume ok
    with a have "accepted (folder i)" by simp
    with size' have "process_index p folder st i =
        Inr (put_image p i (image_width p) nh
          (break_page p nh (wrap_line p (image_width p) st)))"
      by (rule process_index_draw)
    then show "\<exists>st'. process_index p folder st i = Inr st' \<and>
         placements (pdf st') =
           placements (pdf st) @
             [(i, cur_x (break_page p nh (wrap_line p (image_width p) st)),
                  cur_y (break_page p nh (wrap_line p (image_width p) st)),
                  image_width p, nh)]"
      by (simp add: placements_draw)
  qed
  with size' close
  show "\<exists>nh. image_size (image_width p) (folder i) = Some (image_width p, nh) \<and>
         \<bar>nh - of_int (image_width p) * of_nat h / of_nat w\<bar>
           \<le> \<bar>of_int (image_width p) * of_nat h / of_nat w\<bar> / 2 ^ 51 \<and>
         (ok \<longrightarrow>
            (\<exists>st'. process_index p folder st i = Inr st' \<and>
               placements (pdf st') =
                 placements (pdf st) @
                   [(i, cur_x (break_page p nh (wrap_line p (image_width p) st)),
                        cur_y (break_page p nh (wrap_line p (image_width p) st)),
                        image_width p, nh)]))"
    by blast
next
  assume "folder i = Image 0 w ok"
  then show "process_index p folder st i =
      Inr (st\<lparr>warnings := warnings st @ [CouldNotRead i]\<rparr>)"
    by (simp add: process_index_def)
next
  assume "layout p folder indices = Inr fin"
  then show "\<forall>(j, px, py, w', h') \<in> set (placements (pdf fin)). w' = image_width p"
    unfolding layout_def
    by (rule run_loop_width) (simp add: initial_state_def)
qed

text \<open>
  Claim C4 as stated fails: for an image 3 wide and 7 high and \<open>image_width = 10\<close> the
  height is the double 23.333333333333336, which is not \<open>10 * 7 / 3\<close>.
\<close>

theorem aspect_exact_counterexample:
  "image_size 10 (Image 7 3 True) = Some (10, Fract 3283874728290987 140737488355328) \<and>
   Fract 3283874728290987 140737488355328 \<noteq> (10 * 7 / 3 :: rat)"
  by code_simp

text \<open>The same image, and an image of height 0.\<close>

theorem aspect_within_rounding_witness:
  "image_size 10 (Image 7 3 True) = Some (10, Fract 3283874728290987 140737488355328) \<and>
   \<bar>Fract 3283874728290987 140737488355328 - 10 * 7 / 3\<bar> \<le> \<bar>10 * 7 / 3 :: rat\<bar> / 2 ^ 51 \<and>
   process_index
     \<lparr>x_start = 0, y_start = 0, max_width = 100, max_height = 100,
      image_width = 10, h_gap = 5, v_gap = 5\<rparr>
     (\<lambda>i. Image 0 3 True)
     \<lparr>cur_x = 0, cur_y = PyInt 0, line_height = PyInt 0, pdf = [AddPage], warnings = []\<rparr> 4
   = Inr \<lparr>cur_x = 0, cur_y = PyInt 0, line_height = PyInt 0, pdf = [AddPage],
          warnings = [CouldNotRead 4]\<rparr>"
proof -
  let ?p = "\<lparr>x_start = 0, y_start = 0, max_width = 100, max_height = 100,
      image_width = 10, h_gap = 5, v_gap = 5\<rparr>"
  let ?st = "\<lparr>cur_x = 0, cur_y = PyInt 0, line_height = PyInt 0,
      pdf = [AddPage], warnings = []\<rparr>"
  have size: "image_size 10 (Image 7 3 True) = Some (10, Fract 3283874728290987 140737488355328)"
    by code_simp
  have size': "image_size (image_width ?p) ((\<lambda>i. Image 7 3 True) (4::int)) =
      Some (10, Fract 3283874728290987 140737488355328)"
    by code_simp
  have shape: "(\<lambda>i. Image 7 3 True) (4::int) = Image 7 3 True \<and> (0::nat) < 7 \<and> (0::nat) < 3"
    by simp
  from aspect_within_rounding [where p = ?p and folder = "\<lambda>i. Image 7 3 True" and i = 4
      and h = 7 and w = 3 and ok = True] shape
  obtain nh where
    found: "image_size (image_width ?p) ((\<lambda>i. Image 7 3 True) (4::int)) =
      Some (image_width ?p, nh)"
    and bound: "\<bar>nh - of_int (image_width ?p) * of_nat 7 / of_nat 3\<bar>
      \<le> \<bar>of_int (image_width ?p) * of_nat 7 / of_nat 3\<bar> / 2 ^ 51"
    by blast
  from found size' have "nh = Fract 3283874728290987 140737488355328"
    by (simp del: image_size.simps)
  with bound have close:
    "\<bar>Fract 3283874728290987 140737488355328 - 10 * 7 / 3\<bar> \<le> \<bar>10 * 7 / 3 :: rat\<bar> / 2 ^ 51"
    by simp
  from aspect_within_rounding [where p = ?p and folder = "\<lambda>i. Image 0 3 True" and i = 4
      and w = 3 and ok = True and st = ?st]
  have skipped: "process_index ?p (\<lambda>i. Image 0 3 True) ?st 4 =
      Inr \<lparr>cur_x = 0, cur_y = PyInt 0, line_height = PyInt 0, pdf = [AddPage],
          warnings = [CouldNotRead 4]\<rparr>"
    by simp
  from size close skipped show ?thesis by blast
qed

section \<open>Skipped indices\<close>

lemma process_index_skip:
  "\<not> readable p folder i \<Longrightarrow>
     process_index p folder st i =
       Inr (st\<lparr>warnings := warnings st @ [skip_warning folder i]\<rparr>)"
  unfolding readable_def using process_index_None by blast

lemma draw_commute:
  "put_image p i nw nh (break_page p nh (wrap_line p nw (st\<lparr>warnings := ws\<rparr>))) =
   (put_image p i nw nh (break_page p nh (wrap_line p nw st)))\<lparr>warnings := ws\<rparr>"
  by (simp add: put_image_def break_page_def wrap_line_def)

lemma run_loop_erase:
  "without_warnings (run_loop p folder (st\<lparr>warnings := ws\<rparr>) indices) =
   without_warnings (run_loop p folder st indices)"
proof (induction indices arbitrary: st ws)
  case Nil
  then show ?case by (simp add: without_warnings_def)
next
  case (Cons i rest)
  show ?case
  proof (cases p folder i st rule: process_index_cases)
    case skip
    from skip(1) have "process_index p folder (st\<lparr>warnings := ws\<rparr>) i =
        Inr (st\<lparr>warnings := ws @ [skip_warning folder i]\<rparr>)"
      by (simp add: process_index_skip)
    with skip(2) show ?thesis
      by (simp add: Cons.IH)
  next
    case (draw nh)
    from draw(2,3) have "process_index p folder (st\<lparr>warnings := ws\<rparr>) i =
        Inr ((put_image p i (image_width p) nh
          (break_page p nh (wrap_line p (image_width p) st)))\<lparr>warnings := ws\<rparr>)"
      by (simp add: process_index_draw draw_commute)
    with draw(4) show ?thesis
      by (simp add: Cons.IH)
  next
    case raise
    from raise(1,2) have "process_index p folder (st\<lparr>warnings := ws\<rparr>) i = Inl (ImageError i)"
      by (auto simp: readable_def process_index_raise)
    with raise(3) show ?thesis by simp
  qed
qed

lemma run_loop_filter:
  "without_warnings (run_loop p folder st indices) =
   without_warnings (run_loop p folder st (filter (readable p folder) indices))"
proof (induction indices arbitrary: st)
  case Nil
  then show ?case by simp
next
  case (Cons i rest)
  show ?case
  proof (cases p folder i st rule: process_index_cases)
    case skip
    then show ?thesis using Cons.IH by (simp add: run_loop_erase)
  next
    case (draw nh)
    then show ?thesis using Cons.IH by simp
  next
    case raise
    then show ?thesis by simp
  qed
qed

lemma run_loop_warnings:
  "run_loop p folder st indices = Inr fin \<Longrightarrow>
     warnings fin =
       warnings st @ map (skip_warning folder) (filter (\<lambda>i. \<not> readable p folder i) indices)"
proof (induction indices arbitrary: st)
  case Nil
  then show ?case by simp
next
  case (Cons i rest)
  show ?case
  proof (cases p folder i st rule: process_index_cases)
    case skip
    with Cons.prems Cons.IH [of "st\<lparr>warnings := warnings st @ [skip_warning folder i]\<rparr>"]
    show ?thesis by simp
  next
    case (draw nh)
    with Cons.prems
      Cons.IH [of "put_image p i (image_width p) nh
        (break_page p nh (wrap_line p (image_width p) st))"]
    show ?thesis by (simp add: warnings_draw)
  next
    case raise
    with Cons.prems show ?thesis by simp
  qed
qed

lemma run_loop_abort:
  "run_loop p folder st indices = Inl e \<Longrightarrow>
     \<exists>i \<in> set indices. readable p folder i \<and> \<not> accepted (folder i) \<and> e = ImageError i"
proof (induction indices arbitrary: st)
  case Nil
  then show ?case by simp
next
  case (Cons i rest)
  show ?case
  proof (cases p folder i st rule: process_index_cases)
    case skip
    with Cons.prems Cons.IH [of "st\<lparr>warnings := warnings st @ [skip_warning folder i]\<rparr>"]
    show ?thesis by simp
  next
    case (draw nh)
    with Cons.prems
      Cons.IH [of "put_image p i (image_width p) nh
        (break_page p nh (wrap_line p (image_width p) st))"]
    show ?thesis by simp
  next
    case raise
    with Cons.prems show ?thesis by auto
  qed
qed

lemma run_loop_returns:
  "\<forall>i \<in> set indices. accepted (folder i) \<Longrightarrow> \<exists>fin. run_loop p folder st indices = Inr fin"
proof (induction indices arbitrary: st)
  case Nil
  then show ?case by simp
next
  case (Cons i rest)
  show ?case
  proof (cases p folder i st rule: process_index_cases)
    case skip
    with Cons.prems Cons.IH [of "st\<lparr>warnings := warnings st @ [skip_warning folder i]\<rparr>"]
    show ?thesis by simp
  next
    case (draw nh)
    with Cons.prems
      Cons.IH [of "put_image p i (image_width p) nh
        (break_page p nh (wrap_line p (image_width p) st))"]
    show ?thesis by simp
  next
    case raise
    with Cons.prems show ?thesis by simp
  qed
qed

text \<open>
  Claim C6. An index whose file is missing or cannot be read adds one warning and changes
  nothing else: no image is drawn and the cursor and the document stay as they were. The
  run goes on: its outcome, warnings apart, is that of the run over the readable indices
  alone, and when it returns its warnings are one per skipped index, in order. A skipped
  index never ends the run: a run that ends early ends with the exception of an index
  that was read.
\<close>

theorem skip_leaves_state:
  "(folder i = Missing \<or> folder i = Unreadable \<longrightarrow>
      process_index p folder st i =
        Inr (st\<lparr>warnings := warnings st @ [skip_warning folder i]\<rparr>) \<and>
      \<not> readable p folder i) \<and>
   without_warnings (layout p folder indices) =
     without_warnings (layout p folder (filter (readable p folder) indices)) \<and>
   (layout p folder indices = Inr fin \<longrightarrow>
      warnings fin =
        map (skip_warning folder) (filter (\<lambda>i. \<not> readable p folder i) indices)) \<and>
   (layout p folder indices = Inl e \<longrightarrow>
      (\<exists>j \<in> set indices. readable p folder j \<and> e = ImageError j))"
proof (intro conjI impI)
  assume "folder i = Missing \<or> folder i = Unreadable"
  then have "image_size (image_width p) (folder i) = None" by auto
  then show "process_index p folder st i =
      Inr (st\<lparr>warnings := warnings st @ [skip_warning folder i]\<rparr>)"
    and "\<not> readable p folder i"
    by (simp_all add: process_index_None readable_def)
next
  show "without_warnings (layout p folder indices) =
     without_warnings (layout p folder (filter (readable p folder) indices))"
    unfolding layout_def by (rule run_loop_filter)
next
  assume "layout p folder indices = Inr fin"
  then show "warnings fin =
      map (skip_warning folder) (filter (\<lambda>i. \<not> readable p folder i) indices)"
    unfolding layout_def by (simp add: run_loop_warnings initial_state_def)
next
  assume "layout p folder indices = Inl e"
  then show "\<exists>j \<in> set indices. readable p folder j \<and> e = ImageError j"
    unfolding layout_def using run_loop_abort by blast
qed

text \<open>
  Claim C7. When the input parses and every index is skipped, the call succeeds: the
  document has the one page added at the start and no image, and there is one warning
  per index. The result is not the \<open>EmptyInput\<close> failure.
\<close>

theorem all_skipped_document:
  "parse_indices s = Inr indices \<and> (\<forall>i \<in> set indices. \<not> readable p folder i) \<longrightarrow>
     generate_pdf s folder p = Inr ([AddPage], map (skip_warning folder) indices) \<and>
     page_count (fst (projr (generate_pdf s folder p))) = 1 \<and>
     placements (fst (projr (generate_pdf s folder p))) = []"
proof (intro impI)
  assume a: "parse_indices s = Inr indices \<and> (\<forall>i \<in> set indices. \<not> readable p folder i)"
  then have none: "filter (readable p folder) indices = []"
    and all: "filter (\<lambda>i. \<not> readable p folder i) indices = indices"
    by (simp_all add: filter_empty_conv)
  have "without_warnings (layout p folder indices) =
      without_warnings (Inr (initial_state p))"
    unfolding layout_def using run_loop_filter [of p folder "initial_state p" indices]
    by (simp add: none)
  then obtain fin where fin: "layout p folder indices = Inr fin"
    and same: "fin\<lparr>warnings := []\<rparr> = (initial_state p)\<lparr>warnings := []\<rparr>"
    by (cases "layout p folder indices") (simp_all add: without_warnings_def)
  from same have "pdf (fin\<lparr>warnings := []\<rparr>) = pdf ((initial_state p)\<lparr>warnings := []\<rparr>)"
    by (rule arg_cong)
  then have doc: "pdf fin = [AddPage]"
    by (simp add: initial_state_def)
  from fin have ws: "warnings fin = map (skip_warning folder) indices"
    unfolding layout_def by (simp add: run_loop_warnings all initial_state_def)
  from a fin doc ws have "generate_pdf s folder p =
      Inr ([AddPage], map (skip_warning folder) indices)"
    by (simp add: generate_pdf_def)
  then show "generate_pdf s folder p = Inr ([AddPage], map (skip_warning folder) indices) \<and>
     page_count (fst (projr (generate_pdf s folder p))) = 1 \<and>
     placements (fst (projr (generate_pdf s folder p))) = []"
    by simp
qed

text \<open>The file of index 2 is missing: indices 1 and 3 are drawn side by side.\<close>

theorem skip_leaves_state_witness:
  "process_index
     \<lparr>x_start = 0, y_start = 0, max_width = 100, max_height = 100,
      image_width = 10, h_gap = 5, v_gap = 5\<rparr>
     (\<lambda>i. if i = 2 then Missing else Image 1 1 True)
     \<lparr>cur_x = 15, cur_y = PyInt 0, line_height = PyFloat 10,
      pdf = [AddPage, PlaceImage 1 0 (PyInt 0) 10 10], warnings = []\<rparr> 2
   = Inr \<lparr>cur_x = 15, cur_y = PyInt 0, line_height = PyFloat 10,
          pdf = [AddPage, PlaceImage 1 0 (PyInt 0) 10 10], warnings = [NotFound 2]\<rparr> \<and>
   layout
     \<lparr>x_start = 0, y_start = 0, max_width = 100, max_height = 100,
      image_width = 10, h_gap = 5, v_gap = 5\<rparr>
     (\<lambda>i. if i = 2 then Missing else Image 1 1 True) [1, 2, 3]
   = Inr \<lparr>cur_x = 30, cur_y = PyInt 0, line_height = PyFloat 10,
          pdf = [AddPage, PlaceImage 1 0 (PyInt 0) 10 10, PlaceImage 3 15 (PyInt 0) 10 10],
          warnings = [NotFound 2]\<rparr>"
proof -
  let ?p = "\<lparr>x_start = 0, y_start = 0, max_width = 100, max_height = 100,
      image_width = 10, h_gap = 5, v_gap = 5\<rparr>"
  let ?folder = "\<lambda>i::int. if i = 2 then Missing else Image 1 1 True"
  let ?st = "\<lparr>cur_x = 15, cur_y = PyInt 0, line_height = PyFloat 10,
      pdf = [AddPage, PlaceImage 1 0 (PyInt 0) 10 10], warnings = []\<rparr>"
  have missing: "?folder 2 = Missing \<or> ?folder 2 = Unreadable"
    by simp
  from skip_leaves_state [where p = ?p and folder = ?folder and i = 2 and st = ?st] missing
  have "process_index ?p ?folder ?st 2 =
      Inr (?st\<lparr>warnings := warnings ?st @ [skip_warning ?folder 2]\<rparr>)"
    by blast
  then have step: "process_index ?p ?folder ?st 2 =
      Inr \<lparr>cur_x = 15, cur_y = PyInt 0, line_height = PyFloat 10,
          pdf = [AddPage, PlaceImage 1 0 (PyInt 0) 10 10], warnings = [NotFound 2]\<rparr>"
    by (simp add: skip_warning_def)
  have run: "layout ?p ?folder [1, 2, 3] =
      Inr \<lparr>cur_x = 30, cur_y = PyInt 0, line_height = PyFloat 10,
          pdf = [AddPage, PlaceImage 1 0 (PyInt 0) 10 10, PlaceImage 3 15 (PyInt 0) 10 10],
          warnings = [NotFound 2]\<rparr>"
    by code_simp
  from step run show ?thesis by (rule conjI)
qed

text \<open>The index 999999 with an empty folder.\<close>

theorem all_skipped_document_witness:
  "generate_pdf ''_999999'' (\<lambda>i. Missing)
     \<lparr>x_start = 10, y_start = 10, max_width = 190, max_height = 277,
      image_width = 10, h_gap = 5, v_gap = 5\<rparr>
   = Inr ([AddPage], [NotFound 999999])"
proof -
  have parsed: "parse_indices ''_999999'' = Inr [999999]"
    by code_simp
  have skipped: "\<forall>i \<in> set [999999::int].
      \<not> readable \<lparr>x_start = 10, y_start = 10, max_width = 190, max_height = 277,
        image_width = 10, h_gap = 5, v_gap = 5\<rparr> (\<lambda>i. Missing) i"
    by (simp add: readable_def)
  from all_skipped_document [where s = "''_999999''" and indices = "[999999]"
      and folder = "\<lambda>i. Missing"
      and p = "\<lparr>x_start = 10, y_start = 10, max_width = 190, max_height = 277,
        image_width = 10, h_gap = 5, v_gap = 5\<rparr>"] parsed skipped
  show ?thesis by (simp add: skip_warning_def)
qed

section \<open>One iteration for each index\<close>

lemma pdf_draw:
  "pdf (put_image p i nw nh (break_page p nh (wrap_line p nw st))) =
     pdf st @
       (if py_gt (py_add (cur_y (wrap_line p nw st)) (PyFloat nh))
             (PyInt (y_start p + max_height p))
        then [AddPage] else []) @
       [PlaceImage i (cur_x (break_page p nh (wrap_line p nw st)))
          (cur_y (break_page p nh (wrap_line p nw st))) nw nh]"
  by (simp add: put_image_def break_page_def wrap_line_def)

lemma run_loop_counts:
  "run_loop p folder st indices = Inr fin \<Longrightarrow>
     map fst (placements (pdf fin)) =
       map fst (placements (pdf st)) @ filter (readable p folder) indices \<and>
     page_count (pdf fin) \<le> page_count (pdf st) + length (filter (readable p folder) indices)"
proof (induction indices arbitrary: st)
  case Nil
  then show ?case by simp
next
  case (Cons i rest)
  show ?case
  proof (cases p folder i st rule: process_index_cases)
    case skip
    with Cons.prems Cons.IH [of "st\<lparr>warnings := warnings st @ [skip_warning folder i]\<rparr>"]
    show ?thesis by simp
  next
    case (draw nh)
    with Cons.prems
      Cons.IH [of "put_image p i (image_width p) nh
        (break_page p nh (wrap_line p (image_width p) st))"]
    show ?thesis by (auto simp: pdf_draw placements_append page_count_append split: if_splits)
  next
    case raise
    with Cons.prems show ?thesis by simp
  qed
qed

lemma oversize_run:
  assumes big: "max_width p < image_width p" "0 \<le> max_width p" "0 \<le> h_gap p"
  shows "run_loop p folder st indices = Inr fin \<Longrightarrow> x_start p \<le> cur_x st \<Longrightarrow>
    \<forall>(i, px, py, w', h') \<in> set (placements (pdf st)). px = x_start p \<and> w' = image_width p \<Longrightarrow>
    \<forall>(i, px, py, w', h') \<in> set (placements (pdf fin)). px = x_start p \<and> w' = image_width p"
proof (induction indices arbitrary: st)
  case Nil
  then show ?case by simp
next
  case (Cons i rest)
  show ?case
  proof (cases p folder i st rule: process_index_cases)
    case skip
    with Cons.prems Cons.IH [of "st\<lparr>warnings := warnings st @ [skip_warning folder i]\<rparr>"]
    show ?thesis by simp
  next
    case (draw nh)
    let ?next = "put_image p i (image_width p) nh
        (break_page p nh (wrap_line p (image_width p) st))"
    from big Cons.prems(2) have "cur_x (wrap_line p (image_width p) st) = x_start p"
      by (simp add: wrap_line_def)
    then have at_start: "cur_x (break_page p nh (wrap_line p (image_width p) st)) = x_start p"
      by (simp add: break_page_def)
    then have "cur_x ?next = x_start p + (image_width p + h_gap p)"
      by (simp add: put_image_def)
    with big have ahead: "x_start p \<le> cur_x ?next" by simp
    from Cons.prems(3) at_start
    have "\<forall>(i, px, py, w', h') \<in> set (placements (pdf ?next)).
        px = x_start p \<and> w' = image_width p"
      by (simp add: placements_draw)
    with draw(4) Cons.prems(1) ahead Cons.IH [of ?next]
    show ?thesis by simp
  next
    case raise
    with Cons.prems show ?thesis by simp
  qed
qed

text \<open>
  Claim C9. The loop is a recursion over the list of indices, so a run over a finite list
  ends after at most one iteration for each index: it returns when \<^verbatim>\<open>pdf.image\<close>
  accepts every file, and otherwise ends with the exception of one index. In a run that
  returns, the images drawn are the readable indices, each once and in order, every index
  is either drawn or reported, and at most one page is added for each image drawn. When
  \<open>image_width\<close> is greater than \<open>max_width\<close> (with \<open>max_width\<close> and \<open>h_gap\<close> not
  negative), every image is drawn at \<open>x = x_start\<close> with the full width \<open>image_width\<close>.
\<close>

theorem oversized_image_placed_once:
  "(layout p folder indices = Inr fin \<longrightarrow>
      map fst (placements (pdf fin)) = filter (readable p folder) indices \<and>
      length (placements (pdf fin)) + length (warnings fin) = length indices \<and>
      page_count (pdf fin) \<le> 1 + length (filter (readable p folder) indices) \<and>
      (max_width p < image_width p \<and> 0 \<le> max_width p \<and> 0 \<le> h_gap p \<longrightarrow>
         (\<forall>(i, px, py, w', h') \<in> set (placements (pdf fin)).
            px = x_start p \<and> w' = image_width p))) \<and>
   ((\<forall>i \<in> set indices. accepted (folder i)) \<longrightarrow>
      (\<exists>fin. layout p folder indices = Inr fin)) \<and>
   (layout p folder indices = Inl e \<longrightarrow>
      (\<exists>i \<in> set indices. \<not> accepted (folder i) \<and> e = ImageError i))"
proof (intro conjI impI)
  assume run: "layout p folder indices = Inr fin"
  from run show drawn: "map fst (placements (pdf fin)) = filter (readable p folder) indices"
    unfolding layout_def
    using run_loop_counts [of p folder "initial_state p" indices fin]
    by (simp add: initial_state_def)
  have "length (map fst (placements (pdf fin))) = length (filter (readable p folder) indices)"
    by (simp only: drawn)
  moreover from run have "length (warnings fin) =
      length (filter (\<lambda>i. \<not> readable p folder i) indices)"
    unfolding layout_def by (simp add: run_loop_warnings initial_state_def)
  ultimately show "length (placements (pdf fin)) + length (warnings fin) = length indices"
    using sum_length_filter_compl [of "readable p folder" indices] by simp
  from run show "page_count (pdf fin) \<le> 1 + length (filter (readable p folder) indices)"
    unfolding layout_def
    using run_loop_counts [of p folder "initial_state p" indices fin]
    by (simp add: initial_state_def)
next
  assume run: "layout p folder indices = Inr fin"
    and "max_width p < image_width p \<and> 0 \<le> max_width p \<and> 0 \<le> h_gap p"
  then have big: "max_width p < image_width p" "0 \<le> max_width p" "0 \<le> h_gap p"
    by simp_all
  from run show "\<forall>(i, px, py, w', h') \<in> set (placements (pdf fin)).
         px = x_start p \<and> w' = image_width p"
    unfolding layout_def
    by (rule oversize_run [OF big]) (simp_all add: initial_state_def)
next
  assume "\<forall>i \<in> set indices. accepted (folder i)"
  then show "\<exists>fin. layout p folder indices = Inr fin"
    unfolding layout_def by (rule run_loop_returns)
next
  assume "layout p folder indices = Inl e"
  then show "\<exists>i \<in> set indices. \<not> accepted (folder i) \<and> e = ImageError i"
    unfolding layout_def using run_loop_abort by blast
qed

text \<open>Two images 60 wide in a region 50 wide: each on its own row, at \<open>x = 10\<close>.\<close>

theorem oversized_image_placed_once_witness:
  "layout
     \<lparr>x_start = 10, y_start = 10, max_width = 50, max_height = 277,
      image_width = 60, h_gap = 5, v_gap = 5\<rparr>
     (\<lambda>i. Image 1 1 True) [1, 2]
   = Inr \<lparr>cur_x = 75, cur_y = PyFloat 80, line_height = PyFloat 60,
          pdf = [AddPage, PlaceImage 1 10 (PyInt 15) 60 60, PlaceImage 2 10 (PyFloat 80) 60 60],
          warnings = []\<rparr> \<and>
   list_all (\<lambda>(i, px, py, w', h'). px = 10 \<and> w' = 60)
     (placements [AddPage, PlaceImage 1 10 (PyInt 15) 60 60, PlaceImage 2 10 (PyFloat 80) 60 60])"
proof -
  let ?p = "\<lparr>x_start = 10, y_start = 10, max_width = 50, max_height = 277,
      image_width = 60, h_gap = 5, v_gap = 5\<rparr>"
  let ?fin = "\<lparr>cur_x = 75, cur_y = PyFloat 80, line_height = PyFloat 60,
          pdf = [AddPage, PlaceImage 1 10 (PyInt 15) 60 60, PlaceImage 2 10 (PyFloat 80) 60 60],
          warnings = []\<rparr>"
  have run: "layout ?p (\<lambda>i. Image 1 1 True) [1, 2] = Inr ?fin"
    by code_simp
  have big: "max_width ?p < image_width ?p \<and> 0 \<le> max_width ?p \<and> 0 \<le> h_gap ?p"
    by simp
  from oversized_image_placed_once [where p = ?p and folder = "\<lambda>i. Image 1 1 True"
      and indices = "[1, 2]" and fin = ?fin] run big
  have "\<forall>(i, px, py, w', h') \<in> set (placements (pdf ?fin)).
      px = x_start ?p \<and> w' = image_width ?p"
    by blast
  then have "list_all (\<lambda>(i, px, py, w', h'). px = 10 \<and> w' = 60)
     (placements [AddPage, PlaceImage 1 10 (PyInt 15) 60 60, PlaceImage 2 10 (PyFloat 80) 60 60])"
    by (simp only: params.simps state.simps list_all_iff)
  with run show ?thesis by (rule conjI)
qed

section \<open>Gaps\<close>

lemma page_firsts_snoc_add: "page_firsts (cs @ [AddPage]) = page_firsts cs"
  by (induction cs rule: page_firsts.induct) simp_all

lemma page_firsts_snoc_place:
  "page_firsts (cs @ [PlaceImage i px py w h]) =
     page_firsts cs @ (if cs \<noteq> [] \<and> last cs = AddPage then [(i, px, py, w, h)] else [])"
  by (induction cs rule: page_firsts.induct) simp_all



lemma fresh_page_draw:
  assumes fits: "image_width p \<le> max_width p" and inv: "fresh_page_inv p st"
  shows "fresh_page_inv p
    (put_image p i (image_width p) nh (break_page p nh (wrap_line p (image_width p) st)))"
  using fits inv unfolding fresh_page_inv_def
  by (auto simp: put_image_def break_page_def wrap_line_def
      page_firsts_snoc_place page_firsts_snoc_add split: if_splits)



lemma run_loop_fresh_page:
  "image_width p \<le> max_width p \<Longrightarrow> run_loop p folder st indices = Inr fin \<Longrightarrow>
     fresh_page_inv p st \<Longrightarrow> fresh_page_inv p fin"
proof (induction indices arbitrary: st)
  case Nil
  then show ?case by simp
next
  case (Cons i rest)
  show ?case
  proof (cases p folder i st rule: process_index_cases)
    case skip
    from Cons.prems(3)
    have "fresh_page_inv p (st\<lparr>warnings := warnings st @ [skip_warning folder i]\<rparr>)"
      by (simp add: fresh_page_inv_def)
    with skip Cons.prems(1,2) Cons.IH show ?thesis by simp
  next
    case (draw nh)
    with Cons.prems Cons.IH fresh_page_draw [of p st i nh]
    show ?thesis by simp
  next
    case raise
    with Cons.prems show ?thesis by simp
  qed
qed




text \<open>
  The sliders of the caller give \<open>image_width\<close> at most 50 and \<open>max_width\<close> at least
  50 (lines 96 and 103).
\<close>

lemma page_firsts_in_ui_range:
  assumes "image_width p \<le> 50" "50 \<le> max_width p" "layout p folder indices = Inr fin"
  shows "\<forall>(i, px, py, w, h) \<in> set (page_firsts (pdf fin)).
           px = x_start p \<and> py = PyInt (y_start p)"
proof -
  have "fresh_page_inv p (initial_state p)"
    by (simp add: fresh_page_inv_def initial_state_def)
  moreover from assms have "image_width p \<le> max_width p" by simp
  ultimately have "fresh_page_inv p fin"
    using assms(3) unfolding layout_def by (rule run_loop_fresh_page [rotated 2])
  then show ?thesis by (simp add: fresh_page_inv_def list_all_iff)
qed

section \<open>The parser\<close>



lemma space_not_digit: "isspace_char c \<Longrightarrow> \<not> isdigit_char c"
  by (auto simp: isspace_char_def isdigit_char_def Let_def)


lemma collect_indices_drop:
  "\<not> str_isdigit t \<Longrightarrow> collect_indices (ts @ t # us) = collect_indices (ts @ us)"
  by (induction ts) (simp_all split: option.splits)



text \<open>A token of 4301 decimal digits passes \<^verbatim>\<open>isdigit\<close> and is rejected.\<close>

lemma long_token_rejected: "rejected_token (replicate 4301 CHR ''1'')"
  by (simp add: rejected_token_def str_isdigit_def py_int_def int_max_str_digits_def
      isdigit_char_def list_all_iff)

lemma strip_surrounding:
  assumes a: "list_all isspace_char a" and b: "list_all isspace_char b"
  shows "strip (a @ s @ b) = strip s"
proof -
  have front: "dropWhile isspace_char (a @ s @ b) = dropWhile isspace_char (s @ b)"
    using a by (simp add: dropWhile_append2 list_all_iff)
  show ?thesis
  proof (cases "list_all isspace_char s")
    case True
    with a b have outer: "dropWhile isspace_char (a @ s @ b) = []"
      and inner: "dropWhile isspace_char s = []"
      by (simp_all add: list_all_iff)
    show ?thesis by (simp only: strip_def outer inner)
  next
    case False
    then obtain c where c: "c \<in> set s" "\<not> isspace_char c"
      by (auto simp: list_all_iff)
    then have mid: "dropWhile isspace_char (s @ b) = dropWhile isspace_char s @ b"
      by (simp add: dropWhile_append1)
    have sp: "\<And>x. x \<in> set (rev b) \<Longrightarrow> isspace_char x"
      using b by (simp add: list_all_iff)
    have trail: "dropWhile isspace_char (rev b @ rev (dropWhile isspace_char s)) =
        dropWhile isspace_char (rev (dropWhile isspace_char s))"
      by (rule dropWhile_append2) (rule sp)
    show ?thesis by (simp only: strip_def front mid rev_append trail)
  qed
qed

text \<open>
  Claim C10. Whitespace around the input does not change the result of the parser.
  A token with a whitespace character in it does not pass \<^verbatim>\<open>isdigit\<close> and is
  dropped from the tokens.
\<close>

theorem surrounding_whitespace_ignored:
  "(list_all isspace_char a \<and> list_all isspace_char b \<longrightarrow>
      parse_indices (a @ s @ b) = parse_indices s) \<and>
   ((\<exists>c \<in> set t. isspace_char c) \<longrightarrow>
      \<not> str_isdigit t \<and> collect_indices (ts @ t # us) = collect_indices (ts @ us))"
proof (intro conjI impI)
  assume "list_all isspace_char a \<and> list_all isspace_char b"
  then show "parse_indices (a @ s @ b) = parse_indices s"
    by (simp add: parse_indices_def strip_surrounding)
next
  assume "\<exists>c \<in> set t. isspace_char c"
  then show no_digit: "\<not> str_isdigit t"
    by (auto simp: str_isdigit_def list_all_iff dest: space_not_digit)
  then show "collect_indices (ts @ t # us) = collect_indices (ts @ us)"
    by (rule collect_indices_drop)
qed

text \<open>
  The inputs \<^verbatim>\<open>_1_2\<close> with and without two spaces on each side, and the input
  \<^verbatim>\<open>1 _2\<close>.
\<close>

theorem surrounding_whitespace_ignored_witness:
  "parse_indices ''  _1_2  '' = parse_indices ''_1_2'' \<and>
   parse_indices ''_1_2'' = Inr [1, 2] \<and>
   \<not> str_isdigit ''1 '' \<and>
   parse_indices ''1 _2'' = Inr [2]"
proof -
  have sp: "list_all isspace_char ''  '' \<and> list_all isspace_char ''  ''"
    by code_simp
  have inner: "\<exists>c \<in> set ''1 ''. isspace_char c"
    by code_simp
  have toks: "split_on CHR ''_'' (strip ''1 _2'') = [] @ ''1 '' # [''2'']"
    by code_simp
  have rest: "collect_indices ([] @ [''2'']) = Some [2]"
    by code_simp
  have plain: "parse_indices ''_1_2'' = Inr [1, 2]"
    by code_simp
  from surrounding_whitespace_ignored [of "''  ''" "''  ''" "''_1_2''" "''1 ''" "[]" "[''2'']"]
    sp inner
  have "parse_indices (''  '' @ ''_1_2'' @ ''  '') = parse_indices ''_1_2''"
    and "\<not> str_isdigit ''1 ''"
    and "collect_indices ([] @ ''1 '' # [''2'']) = collect_indices ([] @ [''2''])"
    by blast+
  with toks rest plain show ?thesis
    by (simp add: parse_indices_def)
qed

text \<open>
  Claim C3. The claim asks that a token which is not a sequence of decimal digits be
  dropped without making the call fail. On the input \<^verbatim>\<open>_1_X_2\<close>, where \<^verbatim>\<open>X\<close> is
  the character superscript two (U+00B2), the specification's parser drops the token and
  gives \<open>[1, 2]\<close>, while the call fails: the token passes \<^verbatim>\<open>isdigit\<close> and
  \<^verbatim>\<open>int\<close> raises on it.
\<close>

theorem superscript_token_fails_call:
  "parse_indices [CHR ''_'', CHR ''1'', CHR ''_'', CHR 0xB2, CHR ''_'', CHR ''2'']
     = Inl InvalidFormat \<and>
   spec_parse [CHR ''_'', CHR ''1'', CHR ''_'', CHR 0xB2, CHR ''_'', CHR ''2'']
     = Inr [1, 2]"
  by code_simp




end
